theory Spec2Isabelle
  imports Main "HOL-Library.Word"
begin

section \<open>Tadiran air conditioner over a Broadlink IR blaster\<close>

text \<open>
  A shallow embedding of \<^verbatim>\<open>custom_components/tadiran/climate.py\<close> (and of the
  validation helper of \<^verbatim>\<open>config_flow.py\<close>). Python integers are \<open>int\<close>, Python
  strings are \<open>string\<close>, a \<^verbatim>\<open>bytearray\<close> is a list of 8-bit words, a dictionary is
  a map, and every exception the modelled code can raise is a value of \<open>py_error\<close>
  returned on the left of a sum.
\<close>

type_synonym byte = "8 word"

datatype py_error =
    IndexError
  | ValueError
  | CannotConnect
  | InvalidAuth
  | OtherException

subsection \<open>The field table (\<^verbatim>\<open>unpack\<close>, lines 281-291)\<close>

text \<open>
  Each entry of the table is a dictionary with the keys \<^verbatim>\<open>name\<close>, \<^verbatim>\<open>shift\<close>,
  \<^verbatim>\<open>bits\<close> and \<^verbatim>\<open>default\<close>. The key \<^verbatim>\<open>default\<close> is the field \<open>default_value\<close>
  here, since \<open>default\<close> is a constant of HOL.
\<close>

record field =
  name :: string
  shift :: nat
  bits :: nat
  default_value :: int

definition unpack :: "field list" where
  "unpack =
    [ \<lparr>name = ''unknown2'', shift = 27, bits = 8, default_value = 0x4A\<rparr>,
      \<lparr>name = ''blow'', shift = 23, bits = 1, default_value = 0\<rparr>,
      \<lparr>name = ''light'', shift = 21, bits = 1, default_value = 1\<rparr>,
      \<lparr>name = ''turbo'', shift = 20, bits = 1, default_value = 0\<rparr>,
      \<lparr>name = ''temp'', shift = 8, bits = 4, default_value = 20\<rparr>,
      \<lparr>name = ''swing'', shift = 6, bits = 2, default_value = 0\<rparr>,
      \<lparr>name = ''fan'', shift = 4, bits = 2, default_value = 1\<rparr>,
      \<lparr>name = ''on'', shift = 3, bits = 1, default_value = 1\<rparr>,
      \<lparr>name = ''mode'', shift = 0, bits = 3, default_value = 1\<rparr> ]"

definition PREFIX :: string where
  "PREFIX = ''26004e0000012793''"

definition SUFFIX :: string where
  "SUFFIX = ''14000d0500000000000000000000''"

subsection \<open>Python's binary formatting\<close>

text \<open>
  \<^verbatim>\<open>("{0:0%d" % w + "b}").format(i)\<close> is the format specification \<^verbatim>\<open>0wb\<close>: the
  binary digits of \<open>\<bar>i\<bar>\<close>, most significant first, after a minus sign when \<open>i\<close> is
  negative, with zeros between sign and digits so that the whole string has at least
  \<open>w\<close> characters. A number with more than \<open>w\<close> digits is printed in full.
\<close>

definition bit_char :: "nat \<Rightarrow> char" where
  "bit_char b = (if b = 0 then CHR ''0'' else CHR ''1'')"

fun bin_digits :: "nat \<Rightarrow> string" where
  "bin_digits n = (if n < 2 then [bit_char n] else bin_digits (n div 2) @ [bit_char (n mod 2)])"

declare bin_digits.simps [simp del]

definition format_b :: "nat \<Rightarrow> int \<Rightarrow> string" where
  "format_b w i =
    (let sign = (if i < 0 then ''-'' else '''');
         digits = bin_digits (nat \<bar>i\<bar>)
     in sign @ replicate (w - length sign - length digits) CHR ''0'' @ digits)"

subsection \<open>\<^verbatim>\<open>bytearray.fromhex\<close>\<close>

text \<open>
  Two hexadecimal digits give one byte; any other character, or a digit left alone at
  the end, raises \<^verbatim>\<open>ValueError\<close>. (Python also skips white space between bytes; the
  two constants of the source contain none.)
\<close>

definition hex_digit :: "char \<Rightarrow> nat option" where
  "hex_digit c =
    map_of
      [ (CHR ''0'', 0), (CHR ''1'', 1), (CHR ''2'', 2), (CHR ''3'', 3), (CHR ''4'', 4),
        (CHR ''5'', 5), (CHR ''6'', 6), (CHR ''7'', 7), (CHR ''8'', 8), (CHR ''9'', 9),
        (CHR ''a'', 10), (CHR ''b'', 11), (CHR ''c'', 12), (CHR ''d'', 13),
        (CHR ''e'', 14), (CHR ''f'', 15),
        (CHR ''A'', 10), (CHR ''B'', 11), (CHR ''C'', 12), (CHR ''D'', 13),
        (CHR ''E'', 14), (CHR ''F'', 15) ] c"

fun fromhex :: "string \<Rightarrow> py_error + byte list" where
  "fromhex [] = Inr []"
| "fromhex [c] = Inl ValueError"
| "fromhex (a # b # cs) =
    (case (hex_digit a, hex_digit b) of
       (Some x, Some y) \<Rightarrow>
         (case fromhex cs of
            Inl e \<Rightarrow> Inl e
          | Inr data \<Rightarrow> Inr (of_nat (16 * x + y) # data))
     | _ \<Rightarrow> Inl ValueError)"

subsection \<open>\<^verbatim>\<open>pack\<close> (lines 294-313)\<close>

type_synonym vals = "string \<rightharpoonup> int"

text \<open>\<^verbatim>\<open>d.get(k, x)\<close>: the value stored under \<open>k\<close>, or \<open>x\<close> when the key is absent.\<close>

definition dict_get :: "('k \<rightharpoonup> 'v) \<Rightarrow> 'k \<Rightarrow> 'v \<Rightarrow> 'v" where
  "dict_get d k x = (case d k of Some y \<Rightarrow> y | None \<Rightarrow> x)"

text \<open>
  The inner loop \<^verbatim>\<open>for i in range(descr["bits"]): bits[start + i] = v[i]\<close>. Reading
  \<open>v\<close> or writing \<open>bits\<close> out of range raises \<^verbatim>\<open>IndexError\<close> in Python.
\<close>

fun write_field :: "nat \<Rightarrow> string \<Rightarrow> nat list \<Rightarrow> string \<Rightarrow> py_error + string" where
  "write_field start v [] bs = Inr bs"
| "write_field start v (i # rest) bs =
    (if i < length v \<and> start + i < length bs
     then write_field start v rest (bs[start + i := v ! i])
     else Inl IndexError)"

text \<open>The outer loop \<^verbatim>\<open>for descr in unpack\<close>, over the fields still to be written.\<close>

fun pack_fields :: "field list \<Rightarrow> vals \<Rightarrow> string \<Rightarrow> py_error + string" where
  "pack_fields [] vals bs = Inr bs"
| "pack_fields (descr # rest) vals bs =
    (let start = shift descr;
         i = dict_get vals (name descr) (default_value descr);
         v = rev (format_b (bits descr) i)
     in case write_field start v [0 ..< bits descr] bs of
          Inl e \<Rightarrow> Inl e
        | Inr bs' \<Rightarrow> pack_fields rest vals bs')"

text \<open>Lines 295-304: the command word, a list of 35 characters.\<close>

definition pack_bits :: "vals \<Rightarrow> py_error + string" where
  "pack_bits vals = pack_fields unpack vals (replicate 35 CHR ''0'')"

text \<open>Lines 307-309: two bytes are appended to \<open>data\<close> for every character.\<close>

fun encode_bits :: "string \<Rightarrow> byte list \<Rightarrow> byte list" where
  "encode_bits [] data = data"
| "encode_bits (x # xs) data =
    encode_bits xs (data @ [0x16, if x = CHR ''0'' then 19 else 55])"

definition pack :: "vals \<Rightarrow> py_error + byte list" where
  "pack vals =
    (case pack_bits vals of
       Inl e \<Rightarrow> Inl e
     | Inr bs \<Rightarrow>
        (case fromhex PREFIX of
           Inl e \<Rightarrow> Inl e
         | Inr data \<Rightarrow>
            (case fromhex SUFFIX of
               Inl e \<Rightarrow> Inl e
             | Inr suffix \<Rightarrow> Inr (encode_bits bs data @ suffix))))"

subsection \<open>\<^verbatim>\<open>BroadlinkTadiran\<close> (lines 316-359)\<close>

text \<open>
  The \<^verbatim>\<open>broadlink\<close> library is not part of the repository. What a call of it does
  is a parameter of the model: it returns a value, raises \<^verbatim>\<open>DeviceOfflineError\<close>,
  or raises something else, which no handler of the modelled code catches.
\<close>

datatype 'a outcome =
    Returns 'a
  | Raises_DeviceOfflineError
  | Raises_other

record transport =
  gendevice :: "unit outcome"
  auth :: "bool outcome"

record session =
  available :: bool

definition BroadlinkTadiran_init :: "transport \<Rightarrow> py_error + session" where
  "BroadlinkTadiran_init t =
    (case gendevice t of
       Raises_DeviceOfflineError \<Rightarrow> Inl CannotConnect
     | Raises_other \<Rightarrow> Inl OtherException
     | Returns dev \<Rightarrow>
        (case auth t of
           Raises_DeviceOfflineError \<Rightarrow> Inl InvalidAuth
         | Raises_other \<Rightarrow> Inl OtherException
         | Returns a \<Rightarrow> Inr \<lparr>available = a\<rparr>))"

text \<open>\<^verbatim>\<open>tadiran_validate\<close> of \<^verbatim>\<open>config_flow.py\<close> (lines 24-27).\<close>

definition tadiran_validate :: "transport \<Rightarrow> py_error + unit" where
  "tadiran_validate t =
    (case BroadlinkTadiran_init t of
       Inl e \<Rightarrow> Inl e
     | Inr dev \<Rightarrow> if \<not> available dev then Inl CannotConnect else Inr ())"

text \<open>
  The argument of \<^verbatim>\<open>send\<close> is a dictionary whose values may be \<^verbatim>\<open>None\<close>.
\<close>

datatype py_value = PyNone | PyInt int

type_synonym args = "string \<rightharpoonup> py_value"

text \<open>The loop of lines 336-340, which copies the entries that are not \<^verbatim>\<open>None\<close>.\<close>

fun collect_args :: "field list \<Rightarrow> args \<Rightarrow> vals \<Rightarrow> vals" where
  "collect_args [] args_vars data = data"
| "collect_args (k # rest) args_vars data =
    (let arg = name k;
         val = dict_get args_vars arg PyNone
     in collect_args rest args_vars
          (case val of PyNone \<Rightarrow> data | PyInt n \<Rightarrow> data(arg \<mapsto> n)))"

text \<open>
  \<^verbatim>\<open>send\<close> gives the result of \<^verbatim>\<open>pack\<close> to the transport's \<^verbatim>\<open>send_data\<close>; the
  model returns the frame handed over (or the exception raised before the hand-over).
\<close>

definition send :: "args \<Rightarrow> py_error + byte list" where
  "send args_vars = pack (collect_args unpack args_vars Map.empty)"

subsection \<open>\<^verbatim>\<open>TadiranClimate\<close> (lines 100-276)\<close>

text \<open>
  The mode, fan and swing constants are imported from Home Assistant; they are the
  strings below.
\<close>

definition HVAC_MODE_OFF :: string where "HVAC_MODE_OFF = ''off''"
definition HVAC_MODE_HEAT :: string where "HVAC_MODE_HEAT = ''heat''"
definition HVAC_MODE_COOL :: string where "HVAC_MODE_COOL = ''cool''"
definition HVAC_MODE_HEAT_COOL :: string where "HVAC_MODE_HEAT_COOL = ''heat_cool''"
definition HVAC_MODE_AUTO :: string where "HVAC_MODE_AUTO = ''auto''"
definition HVAC_MODE_DRY :: string where "HVAC_MODE_DRY = ''dry''"
definition HVAC_MODE_FAN_ONLY :: string where "HVAC_MODE_FAN_ONLY = ''fan_only''"

definition FAN_AUTO :: string where "FAN_AUTO = ''auto''"
definition FAN_LOW :: string where "FAN_LOW = ''low''"
definition FAN_MEDIUM :: string where "FAN_MEDIUM = ''medium''"
definition FAN_HIGH :: string where "FAN_HIGH = ''high''"

definition SWING_OFF :: string where "SWING_OFF = ''off''"
definition SWING_VERTICAL :: string where "SWING_VERTICAL = ''vertical''"

text \<open>
  The attributes that the modelled methods read or write. \<open>target_temp\<close> holds the
  integer that \<^verbatim>\<open>int(self._target_temp)\<close> yields.
\<close>

record climate =
  target_temp :: int
  hvac_mode :: string
  last_hvac_mode :: string
  fan_mode :: string
  swing_mode :: string

text \<open>The attributes after \<^verbatim>\<open>__init__\<close> (lines 108-113).\<close>

definition climate_init :: climate where
  "climate_init =
    \<lparr>target_temp = 24, hvac_mode = HVAC_MODE_OFF, last_hvac_mode = HVAC_MODE_COOL,
     fan_mode = FAN_AUTO, swing_mode = SWING_OFF\<rparr>"

text \<open>The dictionary \<^verbatim>\<open>args_vars\<close> that \<^verbatim>\<open>send_state\<close> builds (lines 243-258).\<close>

definition args_vars_of :: "climate \<Rightarrow> args" where
  "args_vars_of c =
    [ ''temp'' \<mapsto> PyInt (target_temp c),
      ''fan'' \<mapsto> PyInt
        (dict_get (map_of [(FAN_AUTO, 0), (FAN_LOW, 1), (FAN_MEDIUM, 2), (FAN_HIGH, 3)])
           (fan_mode c) 0),
      ''swing'' \<mapsto> PyInt (if swing_mode c \<noteq> SWING_OFF then 1 else 0),
      ''on'' \<mapsto> PyInt (if hvac_mode c \<noteq> HVAC_MODE_OFF then 1 else 0),
      ''mode'' \<mapsto> PyInt
        (dict_get
           (map_of
              [ (HVAC_MODE_OFF, 0), (HVAC_MODE_FAN_ONLY, 0), (HVAC_MODE_COOL, 1),
                (HVAC_MODE_DRY, 2), (HVAC_MODE_HEAT_COOL, 3), (HVAC_MODE_HEAT, 4) ])
           (hvac_mode c) 1) ]"

definition send_state :: "climate \<Rightarrow> py_error + byte list" where
  "send_state c = send (args_vars_of c)"

text \<open>
  Each setter returns the attributes after the call together with what \<^verbatim>\<open>send_state\<close>
  handed to the transport.
\<close>

definition set_fan_mode :: "climate \<Rightarrow> string \<Rightarrow> climate \<times> (py_error + byte list)" where
  "set_fan_mode c fm = (let c' = c\<lparr>fan_mode := fm\<rparr> in (c', send_state c'))"

definition set_swing_mode :: "climate \<Rightarrow> string \<Rightarrow> climate \<times> (py_error + byte list)" where
  "set_swing_mode c sm = (let c' = c\<lparr>swing_mode := sm\<rparr> in (c', send_state c'))"

definition set_hvac_mode :: "climate \<Rightarrow> string \<Rightarrow> climate \<times> (py_error + byte list)" where
  "set_hvac_mode c m =
    (let c1 = (if m = HVAC_MODE_OFF then c\<lparr>last_hvac_mode := m\<rparr> else c);
         c2 = c1\<lparr>hvac_mode := m\<rparr>
     in (c2, send_state c2))"

text \<open>
  \<^verbatim>\<open>async_turn_on\<close> awaits \<^verbatim>\<open>async_set_hvac_mode\<close>, which the entity base class of
  Home Assistant implements by running \<^verbatim>\<open>set_hvac_mode\<close>.
\<close>

definition async_turn_on :: "climate \<Rightarrow> climate \<times> (py_error + byte list)" where
  "async_turn_on c = set_hvac_mode c (last_hvac_mode c)"

subsection \<open>Notions used to state the properties\<close>

text \<open>The value \<^verbatim>\<open>pack\<close> uses for a field: the caller's, or the table's default.\<close>

definition resolved :: "vals \<Rightarrow> field \<Rightarrow> int" where
  "resolved vals d = dict_get vals (name d) (default_value d)"

text \<open>
  What an argument dictionary of \<^verbatim>\<open>send\<close> holds under a key, when that is an integer:
  an absent key and a key bound to \<^verbatim>\<open>None\<close> are alike.
\<close>

definition effective :: "args \<Rightarrow> string \<Rightarrow> int option" where
  "effective a k = (case a k of Some (PyInt n) \<Rightarrow> Some n | _ \<Rightarrow> None)"

text \<open>Position \<open>p\<close> of the command word belongs to field \<open>d\<close>.\<close>

definition covers :: "field \<Rightarrow> nat \<Rightarrow> bool" where
  "covers d p \<longleftrightarrow> shift d \<le> p \<and> p < shift d + bits d"

definition fields_overlap :: "field \<Rightarrow> field \<Rightarrow> bool" where
  "fields_overlap a b \<longleftrightarrow>
     max (shift a) (shift b) < min (shift a + bits a) (shift b + bits b)"

fun disjoint_fields :: "field list \<Rightarrow> bool" where
  "disjoint_fields [] = True"
| "disjoint_fields (d # ds) = (list_all (\<lambda>e. \<not> fields_overlap d e) ds \<and> disjoint_fields ds)"

text \<open>The \<open>n\<close> low binary digits of \<open>v\<close> as characters, least significant first.\<close>

definition lsb_first :: "nat \<Rightarrow> int \<Rightarrow> string" where
  "lsb_first n v = map (\<lambda>k. bit_char (nat ((v div 2 ^ k) mod 2))) [0 ..< n]"

text \<open>
  Modelled from the spec: the inverse of the pulse encoder, which the specification
  uses to state the round trip and which the repository does not contain. The
  preamble is skipped, and of each of the 35 pulse pairs the duration code is read:
  55 is a one, anything else a zero.
\<close>

fun decode_pairs :: "byte list \<Rightarrow> bool list" where
  "decode_pairs (marker # code # rest) = (code = 55) # decode_pairs rest"
| "decode_pairs _ = []"

definition decode :: "byte list \<Rightarrow> bool list" where
  "decode frame = decode_pairs (take 70 (drop 8 frame))"

text \<open>
  Modelled from the spec: reading a field out of a decoded command word, as the number
  whose binary digits, least significant first, are the \<open>bits\<close> positions from \<open>shift\<close>.
\<close>

fun bits_value :: "bool list \<Rightarrow> int" where
  "bits_value [] = 0"
| "bits_value (b # bs) = (if b then 1 else 0) + 2 * bits_value bs"

definition read_field :: "bool list \<Rightarrow> field \<Rightarrow> int" where
  "read_field w d = bits_value (take (bits d) (drop (shift d) w))"

section \<open>Auxiliary facts\<close>

subsection \<open>Binary formatting\<close>

lemma bin_digits_bound: "n < 2 ^ length (bin_digits n)"
proof (induction n rule: bin_digits.induct)
  case (1 n)
  show ?case
  proof (cases "n < 2")
    case True
    then show ?thesis by (subst bin_digits.simps) simp
  next
    case False
    with 1 have "n div 2 < 2 ^ length (bin_digits (n div 2))" by simp
    then have "n < 2 * 2 ^ length (bin_digits (n div 2))" by linarith
    with False show ?thesis by (subst bin_digits.simps) simp
  qed
qed

lemma rev_bin_digits_nth:
  "k < length (bin_digits n) \<Longrightarrow> rev (bin_digits n) ! k = bit_char ((n div 2 ^ k) mod 2)"
proof (induction n arbitrary: k rule: bin_digits.induct)
  case (1 n)
  show ?case
  proof (cases "n < 2")
    case True
    with 1(2) have "k = 0" by (subst (asm) bin_digits.simps) simp
    with True show ?thesis by (subst bin_digits.simps) simp
  next
    case False
    have unf: "bin_digits n = bin_digits (n div 2) @ [bit_char (n mod 2)]"
      using False by (subst bin_digits.simps) simp
    show ?thesis
    proof (cases k)
      case 0
      then show ?thesis by (simp add: unf)
    next
      case (Suc j)
      with 1(2) have "j < length (bin_digits (n div 2))" by (simp add: unf)
      with 1(1) False have "rev (bin_digits (n div 2)) ! j = bit_char ((n div 2 div 2 ^ j) mod 2)"
        by simp
      then show ?thesis by (simp add: unf Suc div_mult2_eq)
    qed
  qed
qed

lemma format_b_length: "w \<le> length (format_b w i)"
  by (simp add: format_b_def Let_def)

lemma rev_format_b_nth:
  assumes "0 \<le> i" and "k < w"
  shows "rev (format_b w i) ! k = bit_char (nat ((i div 2 ^ k) mod 2))"
proof -
  define n where "n = nat i"
  define ds where "ds = bin_digits n"
  have i: "i = int n" using assms(1) by (simp add: n_def)
  have fmt: "rev (format_b w i) = rev ds @ replicate (w - length ds) CHR ''0''"
    by (simp add: format_b_def Let_def i ds_def)
  have val: "nat ((i div 2 ^ k) mod 2) = (n div 2 ^ k) mod 2"
  proof -
    have "int ((n div 2 ^ k) mod 2) = (int n div 2 ^ k) mod 2"
      by (simp add: zmod_int zdiv_int)
    then show ?thesis by (simp add: i flip: nat_int)
  qed
  show ?thesis
  proof (cases "k < length ds")
    case True
    then show ?thesis
      by (simp add: fmt nth_append val rev_bin_digits_nth ds_def)
  next
    case False
    then have "length ds \<le> k" by simp
    then have "(2::nat) ^ length ds \<le> 2 ^ k" by simp
    moreover have "n < 2 ^ length ds" unfolding ds_def by (rule bin_digits_bound)
    ultimately have "n < 2 ^ k" by linarith
    then have "(n div 2 ^ k) mod 2 = 0" by simp
    with False assms(2) show ?thesis
      by (simp add: fmt nth_append val bit_char_def)
  qed
qed

subsection \<open>Writing the fields into the command word\<close>

lemma write_field_result:
  assumes "\<forall>i\<in>set is. i < length v \<and> start + i < length bs"
  shows "\<exists>bs'. write_field start v is bs = Inr bs' \<and> length bs' = length bs \<and>
           (\<forall>p. (start \<le> p \<and> p - start \<in> set is \<longrightarrow> bs' ! p = v ! (p - start)) \<and>
                (\<not> (start \<le> p \<and> p - start \<in> set is) \<longrightarrow> bs' ! p = bs ! p))"
  using assms
proof (induction "is" arbitrary: bs)
  case Nil
  then show ?case by simp
next
  case (Cons i rest)
  let ?bs1 = "bs[start + i := v ! i]"
  from Cons.prems have ok: "i < length v" "start + i < length bs" by simp_all
  from Cons.prems have "\<forall>j\<in>set rest. j < length v \<and> start + j < length ?bs1" by simp
  from Cons.IH [OF this] obtain bs' where
    r: "write_field start v rest ?bs1 = Inr bs'" and
    l: "length bs' = length ?bs1" and
    h: "\<forall>p. (start \<le> p \<and> p - start \<in> set rest \<longrightarrow> bs' ! p = v ! (p - start)) \<and>
             (\<not> (start \<le> p \<and> p - start \<in> set rest) \<longrightarrow> bs' ! p = ?bs1 ! p)"
    by blast
  have "write_field start v (i # rest) bs = Inr bs'" using ok r by simp
  moreover have "length bs' = length bs" using l by simp
  moreover have "\<forall>p. (start \<le> p \<and> p - start \<in> set (i # rest) \<longrightarrow> bs' ! p = v ! (p - start)) \<and>
                (\<not> (start \<le> p \<and> p - start \<in> set (i # rest)) \<longrightarrow> bs' ! p = bs ! p)"
  proof (intro allI conjI impI)
    fix p assume a: "start \<le> p \<and> p - start \<in> set (i # rest)"
    show "bs' ! p = v ! (p - start)"
    proof (cases "p - start \<in> set rest")
      case True
      with a h show ?thesis by blast
    next
      case False
      with a have pi: "p = start + i" by auto
      with False h have "bs' ! p = ?bs1 ! p" by auto
      with pi ok show ?thesis by simp
    qed
  next
    fix p assume a: "\<not> (start \<le> p \<and> p - start \<in> set (i # rest))"
    then have "\<not> (start \<le> p \<and> p - start \<in> set rest)" and "p \<noteq> start + i" by auto
    with h show "bs' ! p = bs ! p" by auto
  qed
  ultimately show ?case by blast
qed


lemma write_range_result:
  assumes "n \<le> length v" and "start + n \<le> length bs"
  shows "\<exists>bs'. write_field start v [0 ..< n] bs = Inr bs' \<and> length bs' = length bs \<and>
           (\<forall>k<n. bs' ! (start + k) = v ! k) \<and>
           (\<forall>p. \<not> (start \<le> p \<and> p < start + n) \<longrightarrow> bs' ! p = bs ! p)"
proof -
  have "\<forall>i\<in>set [0 ..< n]. i < length v \<and> start + i < length bs"
    using assms by simp
  from write_field_result [OF this] obtain bs' where
    r: "write_field start v [0 ..< n] bs = Inr bs'" and
    l: "length bs' = length bs" and
    h: "\<forall>p. (start \<le> p \<and> p - start \<in> set [0 ..< n] \<longrightarrow> bs' ! p = v ! (p - start)) \<and>
            (\<not> (start \<le> p \<and> p - start \<in> set [0 ..< n]) \<longrightarrow> bs' ! p = bs ! p)"
    by blast
  have a: "\<forall>k<n. bs' ! (start + k) = v ! k"
  proof (intro allI impI)
    fix k assume "k < n"
    then have "start \<le> start + k \<and> (start + k) - start \<in> set [0 ..< n]" by simp
    with h have "bs' ! (start + k) = v ! ((start + k) - start)" by blast
    then show "bs' ! (start + k) = v ! k" by simp
  qed
  have b: "\<forall>p. \<not> (start \<le> p \<and> p < start + n) \<longrightarrow> bs' ! p = bs ! p"
  proof (intro allI impI)
    fix p assume "\<not> (start \<le> p \<and> p < start + n)"
    then have "\<not> (start \<le> p \<and> p - start \<in> set [0 ..< n])" by auto
    with h show "bs' ! p = bs ! p" by blast
  qed
  from r l a b show ?thesis by blast
qed


lemma fields_overlap_iff: "fields_overlap a b \<longleftrightarrow> (\<exists>p. covers a p \<and> covers b p)"
proof
  assume "fields_overlap a b"
  then have "covers a (max (shift a) (shift b)) \<and> covers b (max (shift a) (shift b))"
    by (simp add: fields_overlap_def covers_def)
  then show "\<exists>p. covers a p \<and> covers b p" by blast
next
  assume "\<exists>p. covers a p \<and> covers b p"
  then show "fields_overlap a b"
    by (auto simp: fields_overlap_def covers_def)
qed

lemma pack_fields_result:
  assumes "\<forall>d\<in>set ds. shift d + bits d \<le> length bs"
  shows "\<exists>w. pack_fields ds vals bs = Inr w \<and> length w = length bs \<and>
           (\<forall>p. (\<forall>d\<in>set ds. \<not> covers d p) \<longrightarrow> w ! p = bs ! p) \<and>
           (disjoint_fields ds \<longrightarrow>
              (\<forall>d\<in>set ds. \<forall>k<bits d.
                 w ! (shift d + k) = rev (format_b (bits d) (resolved vals d)) ! k))"
  using assms
proof (induction ds arbitrary: bs)
  case Nil
  then show ?case by simp
next
  case (Cons d ds)
  let ?v = "rev (format_b (bits d) (resolved vals d))"
  have "bits d \<le> length ?v" using format_b_length [of "bits d" "resolved vals d"] by simp
  moreover have "shift d + bits d \<le> length bs" using Cons.prems by simp
  ultimately obtain b1 where
    w1: "write_field (shift d) ?v [0 ..< bits d] bs = Inr b1" and
    l1: "length b1 = length bs" and
    in_d: "\<forall>k<bits d. b1 ! (shift d + k) = ?v ! k" and
    h1: "\<forall>p. \<not> (shift d \<le> p \<and> p < shift d + bits d) \<longrightarrow> b1 ! p = bs ! p"
    using write_range_result by blast
  have out_d: "b1 ! p = bs ! p" if "\<not> covers d p" for p
    using h1 that unfolding covers_def by blast
  have "\<forall>e\<in>set ds. shift e + bits e \<le> length b1" using Cons.prems l1 by simp
  from Cons.IH [OF this] obtain w where
    r: "pack_fields ds vals b1 = Inr w" and
    l: "length w = length b1" and
    keep: "\<forall>p. (\<forall>e\<in>set ds. \<not> covers e p) \<longrightarrow> w ! p = b1 ! p" and
    wr: "disjoint_fields ds \<longrightarrow>
           (\<forall>e\<in>set ds. \<forall>k<bits e.
              w ! (shift e + k) = rev (format_b (bits e) (resolved vals e)) ! k)"
    by blast
  have "pack_fields (d # ds) vals bs = Inr w"
    using w1 r by (simp add: resolved_def)
  moreover have "length w = length bs" using l l1 by simp
  moreover have "\<forall>p. (\<forall>e\<in>set (d # ds). \<not> covers e p) \<longrightarrow> w ! p = bs ! p"
    using keep out_d by simp
  moreover have "disjoint_fields (d # ds) \<longrightarrow>
      (\<forall>e\<in>set (d # ds). \<forall>k<bits e.
         w ! (shift e + k) = rev (format_b (bits e) (resolved vals e)) ! k)"
  proof (intro impI ballI allI)
    fix e k
    assume dj: "disjoint_fields (d # ds)" and e: "e \<in> set (d # ds)" and k: "k < bits e"
    show "w ! (shift e + k) = rev (format_b (bits e) (resolved vals e)) ! k"
    proof (cases "e \<in> set ds")
      case True
      with dj wr k show ?thesis by simp
    next
      case False
      with e have ed: "e = d" by simp
      have cov: "covers d (shift d + k)" using k ed by (simp add: covers_def)
      have "\<forall>f\<in>set ds. \<not> covers f (shift d + k)"
      proof
        fix f assume "f \<in> set ds"
        with dj have "\<not> fields_overlap d f" by (simp add: list_all_iff)
        with cov show "\<not> covers f (shift d + k)" by (auto simp: fields_overlap_iff)
      qed
      with keep have "w ! (shift d + k) = b1 ! (shift d + k)" by simp
      with in_d k ed show ?thesis by simp
    qed
  qed
  ultimately show ?case by blast
qed

lemma unpack_disjoint: "disjoint_fields unpack"
  by (simp add: unpack_def fields_overlap_def)

lemma unpack_fits: "\<forall>d\<in>set unpack. shift d + bits d \<le> 35"
  by (simp add: unpack_def)

lemma pack_bits_result:
  "\<exists>w. pack_bits vals = Inr w \<and> length w = 35 \<and>
     (\<forall>p<35. (\<forall>d\<in>set unpack. \<not> covers d p) \<longrightarrow> w ! p = CHR ''0'') \<and>
     (\<forall>d\<in>set unpack. \<forall>k<bits d.
        w ! (shift d + k) = rev (format_b (bits d) (resolved vals d)) ! k)"
proof -
  have "\<forall>d\<in>set unpack. shift d + bits d \<le> length (replicate 35 CHR ''0'')"
    using unpack_fits by simp
  from pack_fields_result [OF this, of vals] unpack_disjoint
  show ?thesis unfolding pack_bits_def by (auto simp: nth_replicate)
qed

subsection \<open>The command word and the frame\<close>

lemma lsb_first_length: "length (lsb_first n v) = n"
  by (simp add: lsb_first_def)

lemma pack_bits_fields:
  "\<exists>w. pack_bits vals = Inr w \<and> length w = 35 \<and>
     (\<forall>p<35. (\<forall>d\<in>set unpack. \<not> covers d p) \<longrightarrow> w ! p = CHR ''0'') \<and>
     (\<forall>d\<in>set unpack. 0 \<le> resolved vals d \<longrightarrow>
        take (bits d) (drop (shift d) w) = lsb_first (bits d) (resolved vals d))"
proof -
  from pack_bits_result [of vals] obtain w where
    r: "pack_bits vals = Inr w" and l: "length w = 35" and
    z: "\<forall>p<35. (\<forall>d\<in>set unpack. \<not> covers d p) \<longrightarrow> w ! p = CHR ''0''" and
    f: "\<forall>d\<in>set unpack. \<forall>k<bits d.
          w ! (shift d + k) = rev (format_b (bits d) (resolved vals d)) ! k"
    by blast
  have "\<forall>d\<in>set unpack. 0 \<le> resolved vals d \<longrightarrow>
          take (bits d) (drop (shift d) w) = lsb_first (bits d) (resolved vals d)"
  proof (intro ballI impI)
    fix d assume d: "d \<in> set unpack" and nn: "0 \<le> resolved vals d"
    from d unpack_fits have fit: "shift d + bits d \<le> 35" by blast
    show "take (bits d) (drop (shift d) w) = lsb_first (bits d) (resolved vals d)"
    proof (rule nth_equalityI)
      show "length (take (bits d) (drop (shift d) w)) = length (lsb_first (bits d) (resolved vals d))"
        using fit l by (simp add: lsb_first_length)
    next
      fix k assume "k < length (take (bits d) (drop (shift d) w))"
      then have k: "k < bits d" by simp
      with fit l have "take (bits d) (drop (shift d) w) ! k = w ! (shift d + k)" by simp
      also have "\<dots> = rev (format_b (bits d) (resolved vals d)) ! k" using f d k by blast
      also have "\<dots> = bit_char (nat ((resolved vals d div 2 ^ k) mod 2))"
        using nn k by (rule rev_format_b_nth)
      also have "\<dots> = lsb_first (bits d) (resolved vals d) ! k"
        using k by (simp add: lsb_first_def)
      finally show "take (bits d) (drop (shift d) w) ! k = lsb_first (bits d) (resolved vals d) ! k" .
    qed
  qed
  with r l z show ?thesis by blast
qed

lemma encode_bits_eq:
  "encode_bits xs data =
     data @ concat (map (\<lambda>x. [0x16, if x = CHR ''0'' then 19 else 55]) xs)"
  by (induction xs arbitrary: data) simp_all

lemma pulses_length:
  "length (concat (map (\<lambda>x. [0x16 :: byte, if x = CHR ''0'' then 19 else 55]) xs)) = 2 * length xs"
  by (induction xs) simp_all

lemma pulses_nth:
  "p < length xs \<Longrightarrow>
     concat (map (\<lambda>x. [0x16 :: byte, if x = CHR ''0'' then 19 else 55]) xs) ! (2 * p) = 0x16 \<and>
     concat (map (\<lambda>x. [0x16 :: byte, if x = CHR ''0'' then 19 else 55]) xs) ! (2 * p + 1) =
       (if xs ! p = CHR ''0'' then 19 else 55)"
proof (induction xs arbitrary: p)
  case Nil
  then show ?case by simp
next
  case (Cons x xs)
  show ?case
  proof (cases p)
    case 0
    then show ?thesis by simp
  next
    case (Suc q)
    with Cons.prems have "q < length xs" by simp
    from Cons.IH [OF this] show ?thesis by (simp add: Suc)
  qed
qed

lemma fromhex_PREFIX: "fromhex PREFIX = Inr [0x26, 0x00, 0x4e, 0x00, 0x00, 0x01, 0x27, 0x93]"
  by (simp add: PREFIX_def hex_digit_def)

lemma fromhex_SUFFIX:
  "fromhex SUFFIX = Inr [0x14, 0x00, 0x0d, 0x05, 0, 0, 0, 0, 0, 0, 0, 0, 0, 0]"
  by (simp add: SUFFIX_def hex_digit_def)

lemma pack_of_bits:
  "pack_bits vals = Inr w \<Longrightarrow>
     pack vals =
       Inr ([0x26, 0x00, 0x4e, 0x00, 0x00, 0x01, 0x27, 0x93] @
            concat (map (\<lambda>x. [0x16, if x = CHR ''0'' then 19 else 55]) w) @
            [0x14, 0x00, 0x0d, 0x05, 0, 0, 0, 0, 0, 0, 0, 0, 0, 0])"
  by (simp add: pack_def fromhex_PREFIX fromhex_SUFFIX encode_bits_eq)

lemma pack_fields_cong:
  "\<forall>d\<in>set ds. vals1 (name d) = vals2 (name d) \<Longrightarrow>
     pack_fields ds vals1 bs = pack_fields ds vals2 bs"
proof (induction ds arbitrary: bs)
  case Nil
  then show ?case by simp
next
  case (Cons d ds)
  then have "dict_get vals1 (name d) (default_value d) = dict_get vals2 (name d) (default_value d)"
    by (simp add: dict_get_def)
  moreover from Cons have "pack_fields ds vals1 b = pack_fields ds vals2 b" for b by simp
  ultimately show ?case by (simp split: sum.splits)
qed

lemma pack_cong:
  "\<forall>d\<in>set unpack. vals1 (name d) = vals2 (name d) \<Longrightarrow> pack vals1 = pack vals2"
  by (simp add: pack_def pack_bits_def pack_fields_cong [of unpack vals1 vals2])

lemma pack_frame:
  "\<exists>w frame. pack_bits vals = Inr w \<and> length w = 35 \<and> pack vals = Inr frame \<and>
     length frame = 92 \<and>
     take 8 frame = [0x26, 0x00, 0x4e, 0x00, 0x00, 0x01, 0x27, 0x93] \<and>
     drop 78 frame = [0x14, 0x00, 0x0d, 0x05, 0, 0, 0, 0, 0, 0, 0, 0, 0, 0] \<and>
     (\<forall>p<35. frame ! (8 + 2 * p) = 0x16 \<and>
        frame ! (8 + 2 * p + 1) = (if w ! p = CHR ''0'' then 19 else 55))"
proof -
  from pack_bits_result [of vals] obtain w where
    r: "pack_bits vals = Inr w" and l: "length w = 35" by blast
  let ?pre = "[0x26, 0x00, 0x4e, 0x00, 0x00, 0x01, 0x27, 0x93] :: byte list"
  let ?mid = "concat (map (\<lambda>x. [0x16 :: byte, if x = CHR ''0'' then 19 else 55]) w)"
  let ?suf = "[0x14, 0x00, 0x0d, 0x05, 0, 0, 0, 0, 0, 0, 0, 0, 0, 0] :: byte list"
  let ?frame = "?pre @ ?mid @ ?suf"
  have lm: "length ?mid = 70" using l by (simp add: pulses_length)
  have p: "pack vals = Inr ?frame" using r by (rule pack_of_bits)
  have len: "length ?frame = 92" using lm by simp
  have tk: "take 8 ?frame = ?pre" by simp
  have dr: "drop 78 ?frame = ?suf" using lm by simp
  have nth: "\<forall>p<35. ?frame ! (8 + 2 * p) = 0x16 \<and>
        ?frame ! (8 + 2 * p + 1) = (if w ! p = CHR ''0'' then 19 else 55)"
  proof (intro allI impI)
    fix p :: nat assume p35: "p < 35"
    then have pl: "p < length w" using l by simp
    have a: "?frame ! (8 + 2 * p) = ?mid ! (2 * p)"
      using lm p35 by (simp add: nth_append del: concat.simps map_eq_conv)
    have b: "?frame ! (8 + 2 * p + 1) = ?mid ! (2 * p + 1)"
      using lm p35 by (simp add: nth_append)
    from pulses_nth [OF pl] a b
    show "?frame ! (8 + 2 * p) = 0x16 \<and>
        ?frame ! (8 + 2 * p + 1) = (if w ! p = CHR ''0'' then 19 else 55)"
      by simp
  qed
  from r l p len tk dr nth show ?thesis by blast
qed

section \<open>Properties of the field table and of the packer\<close>

lemma fields_overlap_sym: "fields_overlap a b \<longleftrightarrow> fields_overlap b a"
  by (auto simp: fields_overlap_def)

lemma disjoint_fields_nth:
  "disjoint_fields ds \<Longrightarrow> i < j \<Longrightarrow> j < length ds \<Longrightarrow> \<not> fields_overlap (ds ! i) (ds ! j)"
proof (induction ds arbitrary: i j)
  case Nil
  then show ?case by simp
next
  case (Cons d ds)
  from Cons.prems obtain j' where j: "j = Suc j'" and j': "j' < length ds"
    by (cases j) auto
  show ?case
  proof (cases i)
    case 0
    from Cons.prems(1) j' have "\<not> fields_overlap d (ds ! j')"
      by (simp add: list_all_iff)
    with 0 j show ?thesis by simp
  next
    case (Suc i')
    with Cons.prems j have "i' < j'" by simp
    with Cons.IH [of i' j'] Cons.prems(1) j' have "\<not> fields_overlap (ds ! i') (ds ! j')"
      by simp
    with Suc j show ?thesis by simp
  qed
qed

text \<open>
  Claim C9. In the field table no two fields occupy a common bit position, and every
  field ends within the 35 positions of the command word.
\<close>

theorem C9_field_table_invariant:
  "(\<forall>i<length unpack. \<forall>j<length unpack. i \<noteq> j \<longrightarrow>
      \<not> (\<exists>p. covers (unpack ! i) p \<and> covers (unpack ! j) p)) \<and>
   (\<forall>d\<in>set unpack. shift d + bits d \<le> 35)"
proof (intro conjI allI impI)
  fix i j assume i: "i < length unpack" and j: "j < length unpack" and ne: "i \<noteq> j"
  have "\<not> fields_overlap (unpack ! i) (unpack ! j)"
  proof (cases "i < j")
    case True
    from disjoint_fields_nth [OF unpack_disjoint True j] show ?thesis .
  next
    case False
    with ne have "j < i" by simp
    from disjoint_fields_nth [OF unpack_disjoint this i]
    have "\<not> fields_overlap (unpack ! j) (unpack ! i)" .
    then show ?thesis by (simp add: fields_overlap_sym)
  qed
  then show "\<not> (\<exists>p. covers (unpack ! i) p \<and> covers (unpack ! j) p)"
    by (simp add: fields_overlap_iff)
next
  show "\<forall>d\<in>set unpack. shift d + bits d \<le> 35" by (rule unpack_fits)
qed

theorem C9_field_table_invariant_witness:
  "name (unpack ! 4) = ''temp'' \<and> name (unpack ! 5) = ''swing'' \<and>
   covers (unpack ! 4) 8 \<and> \<not> covers (unpack ! 5) 8 \<and>
   shift (unpack ! 0) + bits (unpack ! 0) \<le> 35"
proof -
  have len: "length unpack = 9" by (simp add: unpack_def)
  have c4: "covers (unpack ! 4) 8" by (simp add: unpack_def covers_def)
  from C9_field_table_invariant
  have "4 < length unpack \<longrightarrow> 5 < length unpack \<longrightarrow> (4::nat) \<noteq> 5 \<longrightarrow>
          \<not> (\<exists>p. covers (unpack ! 4) p \<and> covers (unpack ! 5) p)"
    by blast
  with len have "\<not> (\<exists>p. covers (unpack ! 4) p \<and> covers (unpack ! 5) p)" by simp
  with c4 have c5: "\<not> covers (unpack ! 5) 8" by blast
  have "unpack ! 0 \<in> set unpack" using len by simp
  with C9_field_table_invariant have "shift (unpack ! 0) + bits (unpack ! 0) \<le> 35" by blast
  moreover have "name (unpack ! 4) = ''temp'' \<and> name (unpack ! 5) = ''swing''"
    by (simp add: unpack_def)
  ultimately show ?thesis using c4 c5 by blast
qed

text \<open>
  Claim C7. For every field whose value (the caller's, or the default) fits the field's
  width, the characters of the command word from position \<open>shift\<close> on are the \<open>bits\<close>
  binary digits of the value, least significant first; and every position that belongs
  to no field holds the character 0. The command word always has 35 characters.
\<close>

theorem C7_pack_writes_lsb_first:
  "\<exists>w. pack_bits vals = Inr w \<and> length w = 35 \<and>
     (\<forall>d\<in>set unpack. 0 \<le> resolved vals d \<and> resolved vals d < 2 ^ bits d \<longrightarrow>
        take (bits d) (drop (shift d) w) = lsb_first (bits d) (resolved vals d)) \<and>
     (\<forall>p<35. (\<forall>d\<in>set unpack. \<not> covers d p) \<longrightarrow> w ! p = CHR ''0'')"
  using pack_bits_fields [of vals] by blast

theorem C7_pack_writes_lsb_first_witness:
  "\<exists>w. pack_bits [''temp'' \<mapsto> 8, ''mode'' \<mapsto> 4] = Inr w \<and> length w = 35 \<and>
     take 4 (drop 8 w) = ''0001'' \<and> take 3 (drop 0 w) = ''001'' \<and> w ! 12 = CHR ''0''"
proof -
  let ?vals = "[''temp'' \<mapsto> 8, ''mode'' \<mapsto> 4] :: vals"
  let ?temp = "\<lparr>name = ''temp'', shift = 8, bits = 4, default_value = 20\<rparr>"
  let ?mode = "\<lparr>name = ''mode'', shift = 0, bits = 3, default_value = 1\<rparr>"
  from C7_pack_writes_lsb_first [of ?vals] obtain w where
    r: "pack_bits ?vals = Inr w" and l: "length w = 35" and
    f: "\<forall>d\<in>set unpack. 0 \<le> resolved ?vals d \<and> resolved ?vals d < 2 ^ bits d \<longrightarrow>
          take (bits d) (drop (shift d) w) = lsb_first (bits d) (resolved ?vals d)" and
    z: "\<forall>p<35. (\<forall>d\<in>set unpack. \<not> covers d p) \<longrightarrow> w ! p = CHR ''0''"
    by blast
  have t: "?temp \<in> set unpack" and m: "?mode \<in> set unpack" by (simp_all add: unpack_def)
  have rt: "resolved ?vals ?temp = 8" and rm: "resolved ?vals ?mode = 4"
    by (simp_all add: resolved_def dict_get_def)
  from f t have "0 \<le> resolved ?vals ?temp \<and> resolved ?vals ?temp < 2 ^ bits ?temp \<longrightarrow>
      take (bits ?temp) (drop (shift ?temp) w) = lsb_first (bits ?temp) (resolved ?vals ?temp)"
    by (rule bspec)
  then have a: "take 4 (drop 8 w) = lsb_first 4 8" by (simp add: rt)
  from f m have "0 \<le> resolved ?vals ?mode \<and> resolved ?vals ?mode < 2 ^ bits ?mode \<longrightarrow>
      take (bits ?mode) (drop (shift ?mode) w) = lsb_first (bits ?mode) (resolved ?vals ?mode)"
    by (rule bspec)
  then have b: "take 3 (drop 0 w) = lsb_first 3 4" by (simp add: rm)
  have la: "lsb_first 4 8 = ''0001''" and lb: "lsb_first 3 4 = ''001''" by code_simp+
  have "\<forall>d\<in>set unpack. \<not> covers d 12" by (simp add: unpack_def covers_def)
  with z have c: "w ! 12 = CHR ''0''" by simp
  from r l a b c la lb show ?thesis by (intro exI [of _ w]) simp
qed

section \<open>Properties of the encoder and of \<^verbatim>\<open>send\<close>\<close>

lemma pack_bits_empty: "pack_bits Map.empty = Inr ''10011000001000000000010000001010010''"
  by code_simp

text \<open>
  Claim C8. The frame starts with the eight preamble bytes and ends with the fourteen
  suffix bytes; between them, for each position 0 to 34 of the command word in
  ascending order, stand the marker byte 0x16 and then 19 when the position holds
  the character 0, 55 when it holds the character 1.
\<close>

theorem C8_encoder_layout:
  "\<exists>w frame. pack_bits vals = Inr w \<and> pack vals = Inr frame \<and>
     length frame = 8 + 2 * 35 + 14 \<and>
     take 8 frame = [0x26, 0x00, 0x4e, 0x00, 0x00, 0x01, 0x27, 0x93] \<and>
     drop (8 + 2 * 35) frame = [0x14, 0x00, 0x0d, 0x05, 0, 0, 0, 0, 0, 0, 0, 0, 0, 0] \<and>
     (\<forall>p<35. frame ! (8 + 2 * p) = 0x16 \<and>
        (w ! p = CHR ''0'' \<longrightarrow> frame ! (8 + 2 * p + 1) = 19) \<and>
        (w ! p = CHR ''1'' \<longrightarrow> frame ! (8 + 2 * p + 1) = 55))"
proof -
  from pack_frame [of vals] obtain w frame where
    r: "pack_bits vals = Inr w" and p: "pack vals = Inr frame" and
    len: "length frame = 92" and
    tk: "take 8 frame = [0x26, 0x00, 0x4e, 0x00, 0x00, 0x01, 0x27, 0x93]" and
    dr: "drop 78 frame = [0x14, 0x00, 0x0d, 0x05, 0, 0, 0, 0, 0, 0, 0, 0, 0, 0]" and
    nth: "\<forall>p<35. frame ! (8 + 2 * p) = 0x16 \<and>
            frame ! (8 + 2 * p + 1) = (if w ! p = CHR ''0'' then 19 else 55)"
    by blast
  from nth have "\<forall>p<35. frame ! (8 + 2 * p) = 0x16 \<and>
        (w ! p = CHR ''0'' \<longrightarrow> frame ! (8 + 2 * p + 1) = 19) \<and>
        (w ! p = CHR ''1'' \<longrightarrow> frame ! (8 + 2 * p + 1) = 55)"
    by simp
  with r p len tk dr show ?thesis by (intro exI [of _ w] exI [of _ frame]) simp
qed

theorem C8_encoder_layout_witness:
  "\<exists>w frame. pack_bits Map.empty = Inr w \<and> pack Map.empty = Inr frame \<and>
     frame ! 8 = 0x16 \<and> w ! 0 = CHR ''1'' \<and> frame ! 9 = 55 \<and>
     frame ! 10 = 0x16 \<and> w ! 1 = CHR ''0'' \<and> frame ! 11 = 19"
proof -
  from C8_encoder_layout [of Map.empty] obtain w frame where
    r: "pack_bits Map.empty = Inr w" and p: "pack Map.empty = Inr frame" and
    nth: "\<forall>p<35. frame ! (8 + 2 * p) = 0x16 \<and>
        (w ! p = CHR ''0'' \<longrightarrow> frame ! (8 + 2 * p + 1) = 19) \<and>
        (w ! p = CHR ''1'' \<longrightarrow> frame ! (8 + 2 * p + 1) = 55)"
    by blast
  from r have w: "w = ''10011000001000000000010000001010010''" by (simp add: pack_bits_empty)
  have w0: "w ! 0 = CHR ''1''" and w1: "w ! 1 = CHR ''0''" by (simp_all add: w)
  from nth [rule_format, of 0] w0 have a: "frame ! 8 = 0x16 \<and> frame ! 9 = 55" by simp
  from nth [rule_format, of 1] w1 have b: "frame ! 10 = 0x16 \<and> frame ! 11 = 19" by simp
  from r p a b w0 w1 show ?thesis by blast
qed

text \<open>
  Claim C6. Two value maps that agree on every field of the table give the same result,
  and that result is a frame of length 8 + 2 * 35 + 14 = 92, the preamble and the
  suffix being the bytes of the two hexadecimal constants. (The claim asks this of
  maps whose values fit their fields; it holds of every map.)
\<close>

theorem C6_pack_deterministic_fixed_length:
  assumes "\<forall>d\<in>set unpack. vals1 (name d) = vals2 (name d)"
  shows "pack vals1 = pack vals2 \<and>
     (\<exists>frame. pack vals1 = Inr frame \<and>
        length frame = length PREFIX div 2 + 2 * 35 + length SUFFIX div 2 \<and>
        length frame = 92)"
proof -
  from assms have eq: "pack vals1 = pack vals2" by (rule pack_cong)
  from pack_frame [of vals1] obtain frame where
    f: "pack vals1 = Inr frame" and len: "length frame = 92" by blast
  have "length PREFIX div 2 + 2 * 35 + length SUFFIX div 2 = 92"
    by (simp add: PREFIX_def SUFFIX_def)
  with len have "length frame = length PREFIX div 2 + 2 * 35 + length SUFFIX div 2" by simp
  with f len have "\<exists>frame. pack vals1 = Inr frame \<and>
        length frame = length PREFIX div 2 + 2 * 35 + length SUFFIX div 2 \<and>
        length frame = 92" by blast
  with eq show ?thesis by (rule conjI)
qed

theorem C6_pack_deterministic_fixed_length_witness:
  "pack [''temp'' \<mapsto> 8] = pack [''temp'' \<mapsto> 8, ''speed'' \<mapsto> 3] \<and>
   (\<exists>frame. pack [''temp'' \<mapsto> 8] = Inr frame \<and> length frame = 92)"
proof -
  have "\<forall>d\<in>set unpack.
          [''temp'' \<mapsto> 8 :: int] (name d) = [''temp'' \<mapsto> 8, ''speed'' \<mapsto> 3] (name d)"
    by (simp add: unpack_def)
  from C6_pack_deterministic_fixed_length [OF this] show ?thesis by blast
qed

lemma collect_args_lookup:
  "collect_args ds a data k =
     (if k \<in> name ` set ds
      then (case effective a k of Some n \<Rightarrow> Some n | None \<Rightarrow> data k)
      else data k)"
proof (induction ds arbitrary: data)
  case Nil
  then show ?case by simp
next
  case (Cons d ds)
  show ?case
    by (auto simp: Cons.IH dict_get_def effective_def Let_def
        split: option.splits py_value.splits)
qed

text \<open>
  Claim C10. What \<^verbatim>\<open>send\<close> hands to the transport depends only on the entries of
  its argument whose key is a name of the field table and whose value is not
  \<^verbatim>\<open>None\<close>: two arguments with the same such entries give the same result.
\<close>

theorem C10_send_depends_on_table_entries:
  assumes "\<forall>d\<in>set unpack. effective a1 (name d) = effective a2 (name d)"
  shows "send a1 = send a2"
proof -
  have "\<forall>d\<in>set unpack.
          collect_args unpack a1 Map.empty (name d) = collect_args unpack a2 Map.empty (name d)"
    using assms by (simp add: collect_args_lookup)
  then show ?thesis unfolding send_def by (rule pack_cong)
qed

theorem C10_send_depends_on_table_entries_witness:
  "send [''temp'' \<mapsto> PyInt 8, ''fan'' \<mapsto> PyNone, ''speed'' \<mapsto> PyInt 3] =
   send [''temp'' \<mapsto> PyInt 8, ''colour'' \<mapsto> PyNone]"
proof -
  have "\<forall>d\<in>set unpack.
          effective [''temp'' \<mapsto> PyInt 8, ''fan'' \<mapsto> PyNone, ''speed'' \<mapsto> PyInt 3] (name d) =
          effective [''temp'' \<mapsto> PyInt 8, ''colour'' \<mapsto> PyNone] (name d)"
    by (simp add: unpack_def effective_def)
  then show ?thesis by (rule C10_send_depends_on_table_entries)
qed

section \<open>Auxiliary facts on reading a frame back\<close>

lemma lsb_first_Suc:
  "lsb_first (Suc n) v = bit_char (nat (v mod 2)) # lsb_first n (v div 2)"
proof -
  have "[0 ..< Suc n] = 0 # map Suc [0 ..< n]"
    by (simp add: upt_conv_Cons map_Suc_upt del: upt_Suc)
  moreover have "v div 2 ^ Suc k = v div 2 div 2 ^ k" for k
    by (simp add: zdiv_zmult2_eq)
  ultimately show ?thesis
    by (simp add: lsb_first_def comp_def del: upt_Suc power_Suc)
qed

lemma bits_value_lsb_first:
  "bits_value (map (\<lambda>x. x \<noteq> CHR ''0'') (lsb_first n v)) = v mod 2 ^ n"
proof (induction n arbitrary: v)
  case 0
  then show ?case by (simp add: lsb_first_def)
next
  case (Suc n)
  have b: "(if bit_char (nat (v mod 2)) \<noteq> CHR ''0'' then 1 else 0) = v mod 2"
    by (cases "v mod 2 = 0") (auto simp: bit_char_def)
  have "v mod 2 ^ Suc n = 2 * (v div 2 mod 2 ^ n) + v mod 2"
    using zmod_zmult2_eq [of "2 ^ n" v 2] by simp
  with Suc [of "v div 2"] b show ?case
    by (simp add: lsb_first_Suc del: power_Suc)
qed

lemma lsb_first_mod: "lsb_first n (v mod 2 ^ n) = lsb_first n v"
proof -
  have "(v mod 2 ^ n) div 2 ^ k mod 2 = v div 2 ^ k mod 2" if "k < n" for k
  proof -
    have "bit (take_bit n v) k = bit v k" using that by (simp add: bit_take_bit_iff)
    then have "odd ((v mod 2 ^ n) div 2 ^ k) = odd (v div 2 ^ k)"
      by (simp add: bit_iff_odd take_bit_eq_mod)
    then show ?thesis by (simp add: mod_2_eq_odd)
  qed
  then show ?thesis by (simp add: lsb_first_def)
qed

lemma decode_pairs_pulses:
  "decode_pairs (concat (map (\<lambda>x. [0x16 :: byte, if x = CHR ''0'' then 19 else 55]) w)) =
     map (\<lambda>x. x \<noteq> CHR ''0'') w"
  by (induction w) simp_all

lemma decode_pack:
  assumes "pack_bits vals = Inr w" and "length w = 35" and "pack vals = Inr frame"
  shows "decode frame = map (\<lambda>x. x \<noteq> CHR ''0'') w"
proof -
  let ?mid = "concat (map (\<lambda>x. [0x16 :: byte, if x = CHR ''0'' then 19 else 55]) w)"
  have lm: "length ?mid = 70" using assms(2) by (simp add: pulses_length)
  from pack_of_bits [OF assms(1)] assms(3)
  have "frame = [0x26, 0x00, 0x4e, 0x00, 0x00, 0x01, 0x27, 0x93] @ ?mid @
            [0x14, 0x00, 0x0d, 0x05, 0, 0, 0, 0, 0, 0, 0, 0, 0, 0]"
    by simp
  then have "take 70 (drop 8 frame) = ?mid" using lm by simp
  then show ?thesis by (simp add: decode_def decode_pairs_pulses)
qed

lemma read_back:
  "\<exists>frame. pack vals = Inr frame \<and>
     (\<forall>d\<in>set unpack. 0 \<le> resolved vals d \<longrightarrow>
        read_field (decode frame) d = resolved vals d mod 2 ^ bits d)"
proof -
  from pack_bits_fields [of vals] obtain w where
    r: "pack_bits vals = Inr w" and l: "length w = 35" and
    f: "\<forall>d\<in>set unpack. 0 \<le> resolved vals d \<longrightarrow>
          take (bits d) (drop (shift d) w) = lsb_first (bits d) (resolved vals d)"
    by blast
  from pack_of_bits [OF r] obtain frame where p: "pack vals = Inr frame" by blast
  from decode_pack [OF r l p] have dc: "decode frame = map (\<lambda>x. x \<noteq> CHR ''0'') w" .
  have "\<forall>d\<in>set unpack. 0 \<le> resolved vals d \<longrightarrow>
        read_field (decode frame) d = resolved vals d mod 2 ^ bits d"
  proof (intro ballI impI)
    fix d assume "d \<in> set unpack" and "0 \<le> resolved vals d"
    with f have "take (bits d) (drop (shift d) w) = lsb_first (bits d) (resolved vals d)"
      by blast
    then have "take (bits d) (drop (shift d) (decode frame)) =
        map (\<lambda>x. x \<noteq> CHR ''0'') (lsb_first (bits d) (resolved vals d))"
      by (simp add: dc take_map drop_map)
    then show "read_field (decode frame) d = resolved vals d mod 2 ^ bits d"
      by (simp add: read_field_def bits_value_lsb_first)
  qed
  with p show ?thesis by blast
qed

section \<open>Range of the values and the round trip\<close>

lemma pack_bits_temp_24:
  "pack_bits [''temp'' \<mapsto> 24] = Inr ''10011000000100000000010000001010010''"
  by code_simp

lemma pack_bits_temp_minus_3:
  "pack_bits [''temp'' \<mapsto> - 3] = Inr ''10011000110-00000000010000001010010''"
  by code_simp

lemma unpack_defaults:
  "\<forall>d\<in>set unpack. 0 \<le> default_value d \<and>
     (name d \<noteq> ''temp'' \<longrightarrow> default_value d mod 2 ^ bits d = default_value d) \<and>
     (name d = ''temp'' \<longrightarrow> default_value d mod 2 ^ bits d = 4)"
  by (simp add: unpack_def)

text \<open>
  Claim C1, as the code has it. \<^verbatim>\<open>pack\<close> has no range check and raises nothing: for
  every map of integers it returns a command word and a frame. A value that is not
  negative is cut to the width of its field: the field holds the \<open>bits\<close> low binary
  digits of the value, which are the digits of the value modulo \<open>2 ^ bits\<close>, least
  significant first. (A target temperature of 24 is sent as 8 in the four bits of
  \<open>temp\<close>.)
\<close>

theorem C1_pack_masks_to_width:
  "\<exists>w frame. pack_bits vals = Inr w \<and> pack vals = Inr frame \<and>
     (\<forall>d\<in>set unpack. 0 \<le> resolved vals d \<longrightarrow>
        take (bits d) (drop (shift d) w) =
          lsb_first (bits d) (resolved vals d mod 2 ^ bits d))"
proof -
  from pack_bits_fields [of vals] obtain w where
    r: "pack_bits vals = Inr w" and
    f: "\<forall>d\<in>set unpack. 0 \<le> resolved vals d \<longrightarrow>
          take (bits d) (drop (shift d) w) = lsb_first (bits d) (resolved vals d)"
    by blast
  from pack_of_bits [OF r] obtain frame where p: "pack vals = Inr frame" by blast
  from f have "\<forall>d\<in>set unpack. 0 \<le> resolved vals d \<longrightarrow>
        take (bits d) (drop (shift d) w) =
          lsb_first (bits d) (resolved vals d mod 2 ^ bits d)"
    by (simp add: lsb_first_mod)
  with r p show ?thesis by blast
qed

theorem C1_pack_masks_to_width_witness:
  "\<exists>w frame. pack_bits [''temp'' \<mapsto> 24] = Inr w \<and> pack [''temp'' \<mapsto> 24] = Inr frame \<and>
     take 4 (drop 8 w) = lsb_first 4 8 \<and> lsb_first 4 8 = ''0001''"
proof -
  let ?vals = "[''temp'' \<mapsto> 24] :: vals"
  let ?temp = "\<lparr>name = ''temp'', shift = 8, bits = 4, default_value = 20\<rparr>"
  from C1_pack_masks_to_width [of ?vals] obtain w frame where
    r: "pack_bits ?vals = Inr w" and p: "pack ?vals = Inr frame" and
    f: "\<forall>d\<in>set unpack. 0 \<le> resolved ?vals d \<longrightarrow>
        take (bits d) (drop (shift d) w) =
          lsb_first (bits d) (resolved ?vals d mod 2 ^ bits d)"
    by blast
  have t: "?temp \<in> set unpack" by (simp add: unpack_def)
  have rt: "resolved ?vals ?temp = 24" by (simp add: resolved_def dict_get_def)
  from f t have "0 \<le> resolved ?vals ?temp \<longrightarrow>
        take (bits ?temp) (drop (shift ?temp) w) =
          lsb_first (bits ?temp) (resolved ?vals ?temp mod 2 ^ bits ?temp)"
    by (rule bspec)
  then have a: "take 4 (drop 8 w) = lsb_first 4 8" by (simp add: rt)
  have b: "lsb_first 4 8 = ''0001''" by code_simp
  from r p a b show ?thesis by blast
qed

text \<open>
  The claim as stated fails: the temperature 24 does not fit four bits and is packed
  (as 8, the characters 0001 at positions 8 to 11), and the negative temperature -3 is
  packed too, its minus sign landing in position 11 of the command word. The frames
  are those of 8 and of 11.
\<close>

theorem C1_counterexample:
  "(2::int) ^ 4 \<le> 24 \<and>
   pack_bits [''temp'' \<mapsto> 24] = Inr ''10011000000100000000010000001010010'' \<and>
   pack [''temp'' \<mapsto> 24] =
     Inr [38, 0, 78, 0, 0, 1, 39, 147,
          22, 55, 22, 19, 22, 19, 22, 55, 22, 55, 22, 19, 22, 19,
          22, 19, 22, 19, 22, 19, 22, 19, 22, 55, 22, 19, 22, 19,
          22, 19, 22, 19, 22, 19, 22, 19, 22, 19, 22, 19, 22, 19,
          22, 55, 22, 19, 22, 19, 22, 19, 22, 19, 22, 19, 22, 19,
          22, 55, 22, 19, 22, 55, 22, 19, 22, 19, 22, 55, 22, 19,
          20, 0, 13, 5, 0, 0, 0, 0, 0, 0, 0, 0, 0, 0] \<and>
   pack_bits [''temp'' \<mapsto> - 3] = Inr ''10011000110-00000000010000001010010'' \<and>
   pack [''temp'' \<mapsto> - 3] =
     Inr [38, 0, 78, 0, 0, 1, 39, 147,
          22, 55, 22, 19, 22, 19, 22, 55, 22, 55, 22, 19, 22, 19,
          22, 19, 22, 55, 22, 55, 22, 19, 22, 55, 22, 19, 22, 19,
          22, 19, 22, 19, 22, 19, 22, 19, 22, 19, 22, 19, 22, 19,
          22, 55, 22, 19, 22, 19, 22, 19, 22, 19, 22, 19, 22, 19,
          22, 55, 22, 19, 22, 55, 22, 19, 22, 19, 22, 55, 22, 19,
          20, 0, 13, 5, 0, 0, 0, 0, 0, 0, 0, 0, 0, 0]"
  by (simp add: pack_bits_temp_24 pack_bits_temp_minus_3
      pack_of_bits [OF pack_bits_temp_24] pack_of_bits [OF pack_bits_temp_minus_3])

text \<open>
  Claim C5, as the code has it. When every value present in the map fits its field,
  decoding the frame and reading a field gives back the value of a field that is
  present, and for an omitted field the table's default modulo \<open>2 ^ bits\<close>: the default
  itself for every field but \<open>temp\<close>, whose default 20 does not fit its four bits and
  reads back as 4.
\<close>

theorem C5_round_trip_modulo_width:
  assumes "\<forall>d\<in>set unpack. \<forall>v. vals (name d) = Some v \<longrightarrow> 0 \<le> v \<and> v < 2 ^ bits d"
  shows "\<exists>frame. pack vals = Inr frame \<and>
     (\<forall>d\<in>set unpack.
        (\<forall>v. vals (name d) = Some v \<longrightarrow> read_field (decode frame) d = v) \<and>
        (vals (name d) = None \<longrightarrow>
           read_field (decode frame) d = default_value d mod 2 ^ bits d) \<and>
        (vals (name d) = None \<and> name d \<noteq> ''temp'' \<longrightarrow>
           read_field (decode frame) d = default_value d) \<and>
        (vals (name d) = None \<and> name d = ''temp'' \<longrightarrow>
           read_field (decode frame) d = 4))"
proof -
  from read_back [of vals] obtain frame where
    p: "pack vals = Inr frame" and
    rb: "\<forall>d\<in>set unpack. 0 \<le> resolved vals d \<longrightarrow>
        read_field (decode frame) d = resolved vals d mod 2 ^ bits d"
    by blast
  have "(\<forall>v. vals (name d) = Some v \<longrightarrow> read_field (decode frame) d = v) \<and>
        (vals (name d) = None \<longrightarrow>
           read_field (decode frame) d = default_value d mod 2 ^ bits d) \<and>
        (vals (name d) = None \<and> name d \<noteq> ''temp'' \<longrightarrow>
           read_field (decode frame) d = default_value d) \<and>
        (vals (name d) = None \<and> name d = ''temp'' \<longrightarrow>
           read_field (decode frame) d = 4)" if d: "d \<in> set unpack" for d
  proof (cases "vals (name d)")
    case None
    then have res: "resolved vals d = default_value d" by (simp add: resolved_def dict_get_def)
    from unpack_defaults d have df: "0 \<le> default_value d \<and>
       (name d \<noteq> ''temp'' \<longrightarrow> default_value d mod 2 ^ bits d = default_value d) \<and>
       (name d = ''temp'' \<longrightarrow> default_value d mod 2 ^ bits d = 4)"
      by (rule bspec)
    with rb d res have "read_field (decode frame) d = default_value d mod 2 ^ bits d" by simp
    with None df show ?thesis by simp
  next
    case (Some v)
    then have res: "resolved vals d = v" by (simp add: resolved_def dict_get_def)
    from assms d Some have "0 \<le> v \<and> v < 2 ^ bits d" by blast
    with rb d res have "read_field (decode frame) d = v" by simp
    with Some show ?thesis by simp
  qed
  with p show ?thesis by blast
qed

theorem C5_round_trip_modulo_width_witness:
  "(\<exists>frame. pack [''temp'' \<mapsto> 8] = Inr frame \<and>
      read_field (decode frame) \<lparr>name = ''temp'', shift = 8, bits = 4, default_value = 20\<rparr> = 8 \<and>
      read_field (decode frame) \<lparr>name = ''fan'', shift = 4, bits = 2, default_value = 1\<rparr> = 1) \<and>
   (\<exists>frame. pack Map.empty = Inr frame \<and>
      read_field (decode frame) \<lparr>name = ''temp'', shift = 8, bits = 4, default_value = 20\<rparr> = 4)"
proof -
  let ?vals = "[''temp'' \<mapsto> 8] :: vals"
  let ?temp = "\<lparr>name = ''temp'', shift = 8, bits = 4, default_value = 20\<rparr>"
  let ?fan = "\<lparr>name = ''fan'', shift = 4, bits = 2, default_value = 1\<rparr>"
  have t: "?temp \<in> set unpack" and fn: "?fan \<in> set unpack" by (simp_all add: unpack_def)
  have h1: "\<forall>d\<in>set unpack. \<forall>v. ?vals (name d) = Some v \<longrightarrow> 0 \<le> v \<and> v < 2 ^ bits d"
    by (simp add: unpack_def)
  from C5_round_trip_modulo_width [OF h1] obtain frame where
    p: "pack ?vals = Inr frame" and
    a: "\<forall>d\<in>set unpack.
        (\<forall>v. ?vals (name d) = Some v \<longrightarrow> read_field (decode frame) d = v) \<and>
        (?vals (name d) = None \<longrightarrow>
           read_field (decode frame) d = default_value d mod 2 ^ bits d) \<and>
        (?vals (name d) = None \<and> name d \<noteq> ''temp'' \<longrightarrow>
           read_field (decode frame) d = default_value d) \<and>
        (?vals (name d) = None \<and> name d = ''temp'' \<longrightarrow>
           read_field (decode frame) d = 4)"
    by blast
  from bspec [OF a t] have rt: "read_field (decode frame) ?temp = 8" by simp
  from bspec [OF a fn] have rf: "read_field (decode frame) ?fan = 1" by simp
  have h2: "\<forall>d\<in>set unpack. \<forall>v. (Map.empty :: vals) (name d) = Some v \<longrightarrow> 0 \<le> v \<and> v < 2 ^ bits d"
    by simp
  from C5_round_trip_modulo_width [OF h2] obtain frame' where
    p': "pack Map.empty = Inr frame'" and
    a': "\<forall>d\<in>set unpack.
        (\<forall>v. (Map.empty :: vals) (name d) = Some v \<longrightarrow> read_field (decode frame') d = v) \<and>
        ((Map.empty :: vals) (name d) = None \<longrightarrow>
           read_field (decode frame') d = default_value d mod 2 ^ bits d) \<and>
        ((Map.empty :: vals) (name d) = None \<and> name d \<noteq> ''temp'' \<longrightarrow>
           read_field (decode frame') d = default_value d) \<and>
        ((Map.empty :: vals) (name d) = None \<and> name d = ''temp'' \<longrightarrow>
           read_field (decode frame') d = 4)"
    by blast
  from bspec [OF a' t] have rt': "read_field (decode frame') ?temp = 4" by simp
  from p rt rf p' rt' show ?thesis by blast
qed

text \<open>
  The claim as stated fails for the empty map, all of whose present values fit: the
  field \<open>temp\<close> is omitted, its default is 20, and 4 is read back.
\<close>

theorem C5_counterexample:
  "unpack ! 4 = \<lparr>name = ''temp'', shift = 8, bits = 4, default_value = 20\<rparr> \<and>
   (case pack Map.empty of
      Inl e \<Rightarrow> None
    | Inr frame \<Rightarrow> Some (read_field (decode frame) (unpack ! 4))) = Some 4"
  by (simp add: pack_of_bits [OF pack_bits_empty] decode_def read_field_def unpack_def)

section \<open>The climate entity and the device session\<close>

lemma turn_on_after_off:
  "hvac_mode (fst (async_turn_on (fst (set_hvac_mode (fst (set_hvac_mode c m)) HVAC_MODE_OFF))))
     = HVAC_MODE_OFF"
  by (simp add: async_turn_on_def set_hvac_mode_def Let_def)

text \<open>
  Claim C2, on the code. \<^verbatim>\<open>set_hvac_mode\<close> stores its argument, the mode off, in
  \<open>last_hvac_mode\<close> when the entity is turned off, where the mode in force before the
  call was to be remembered. After heat, then off, \<^verbatim>\<open>async_turn_on\<close> sets the mode
  off again: neither heat nor cool.
\<close>

theorem C2_turn_on_after_heat_and_off:
  "fst (async_turn_on
     (fst (set_hvac_mode (fst (set_hvac_mode climate_init HVAC_MODE_HEAT)) HVAC_MODE_OFF))) =
   \<lparr>target_temp = 24, hvac_mode = ''off'', last_hvac_mode = ''off'',
    fan_mode = ''auto'', swing_mode = ''off''\<rparr>"
  by (simp add: async_turn_on_def set_hvac_mode_def climate_init_def Let_def
      HVAC_MODE_OFF_def HVAC_MODE_HEAT_def HVAC_MODE_COOL_def FAN_AUTO_def SWING_OFF_def)

lemmas mode_defs =
  HVAC_MODE_OFF_def HVAC_MODE_HEAT_def HVAC_MODE_COOL_def HVAC_MODE_HEAT_COOL_def
  HVAC_MODE_AUTO_def HVAC_MODE_DRY_def HVAC_MODE_FAN_ONLY_def

lemmas fan_defs = FAN_AUTO_def FAN_LOW_def FAN_MEDIUM_def FAN_HIGH_def

lemma sent_value:
  "k \<in> name ` set unpack \<Longrightarrow>
     collect_args unpack a Map.empty k = effective a k"
  by (simp add: collect_args_lookup split: option.splits)

lemma sent_mode:
  "collect_args unpack (args_vars_of c) Map.empty ''mode'' =
     Some (dict_get
           (map_of
              [ (HVAC_MODE_OFF, 0), (HVAC_MODE_FAN_ONLY, 0), (HVAC_MODE_COOL, 1),
                (HVAC_MODE_DRY, 2), (HVAC_MODE_HEAT_COOL, 3), (HVAC_MODE_HEAT, 4) ])
           (hvac_mode c) 1)"
proof -
  have "''mode'' \<in> name ` set unpack" by (simp add: unpack_def)
  then show ?thesis by (simp add: sent_value effective_def args_vars_of_def)
qed

lemma sent_fan:
  "collect_args unpack (args_vars_of c) Map.empty ''fan'' =
     Some (dict_get (map_of [(FAN_AUTO, 0), (FAN_LOW, 1), (FAN_MEDIUM, 2), (FAN_HIGH, 3)])
           (fan_mode c) 0)"
proof -
  have "''fan'' \<in> name ` set unpack" by (simp add: unpack_def)
  then show ?thesis by (simp add: sent_value effective_def args_vars_of_def)
qed

text \<open>
  Claim C3, as the code has it. In the values that \<^verbatim>\<open>send_state\<close> passes on to
  \<^verbatim>\<open>pack\<close>, the field \<open>mode\<close> is 0 for off and fan-only, 2 for dry, 3 for heat_cool,
  4 for heat and 1 for every other mode: for cool, and for every mode that is not a key
  of the lookup table. So 0 is sent for off and fan-only and for no other mode. The
  field \<open>fan\<close> is 1 for low, 2 for medium, 3 for high and 0 for every other fan speed,
  auto included.
\<close>

theorem C3_mode_and_fan_codes:
  "collect_args unpack (args_vars_of c) Map.empty ''mode'' =
     Some (if hvac_mode c = HVAC_MODE_OFF \<or> hvac_mode c = HVAC_MODE_FAN_ONLY then 0
           else if hvac_mode c = HVAC_MODE_DRY then 2
           else if hvac_mode c = HVAC_MODE_HEAT_COOL then 3
           else if hvac_mode c = HVAC_MODE_HEAT then 4
           else 1) \<and>
   (collect_args unpack (args_vars_of c) Map.empty ''mode'' = Some 0 \<longleftrightarrow>
      hvac_mode c = HVAC_MODE_OFF \<or> hvac_mode c = HVAC_MODE_FAN_ONLY) \<and>
   (hvac_mode c \<notin> {HVAC_MODE_OFF, HVAC_MODE_FAN_ONLY, HVAC_MODE_COOL, HVAC_MODE_DRY,
                    HVAC_MODE_HEAT_COOL, HVAC_MODE_HEAT} \<longrightarrow>
      collect_args unpack (args_vars_of c) Map.empty ''mode'' = Some 1) \<and>
   collect_args unpack (args_vars_of c) Map.empty ''fan'' =
     Some (if fan_mode c = FAN_LOW then 1
           else if fan_mode c = FAN_MEDIUM then 2
           else if fan_mode c = FAN_HIGH then 3
           else 0) \<and>
   (fan_mode c \<notin> {FAN_LOW, FAN_MEDIUM, FAN_HIGH} \<longrightarrow>
      collect_args unpack (args_vars_of c) Map.empty ''fan'' = Some 0)"
proof -
  have m: "collect_args unpack (args_vars_of c) Map.empty ''mode'' =
     Some (if hvac_mode c = HVAC_MODE_OFF \<or> hvac_mode c = HVAC_MODE_FAN_ONLY then 0
           else if hvac_mode c = HVAC_MODE_DRY then 2
           else if hvac_mode c = HVAC_MODE_HEAT_COOL then 3
           else if hvac_mode c = HVAC_MODE_HEAT then 4
           else 1)"
    by (simp add: sent_mode dict_get_def mode_defs)
  have f: "collect_args unpack (args_vars_of c) Map.empty ''fan'' =
     Some (if fan_mode c = FAN_LOW then 1
           else if fan_mode c = FAN_MEDIUM then 2
           else if fan_mode c = FAN_HIGH then 3
           else 0)"
    by (simp add: sent_fan dict_get_def fan_defs)
  have z: "collect_args unpack (args_vars_of c) Map.empty ''mode'' = Some 0 \<longleftrightarrow>
      hvac_mode c = HVAC_MODE_OFF \<or> hvac_mode c = HVAC_MODE_FAN_ONLY"
    unfolding m by simp
  have u: "hvac_mode c \<notin> {HVAC_MODE_OFF, HVAC_MODE_FAN_ONLY, HVAC_MODE_COOL, HVAC_MODE_DRY,
                    HVAC_MODE_HEAT_COOL, HVAC_MODE_HEAT} \<longrightarrow>
      collect_args unpack (args_vars_of c) Map.empty ''mode'' = Some 1"
    unfolding m by simp
  have v: "fan_mode c \<notin> {FAN_LOW, FAN_MEDIUM, FAN_HIGH} \<longrightarrow>
      collect_args unpack (args_vars_of c) Map.empty ''fan'' = Some 0"
    unfolding f by simp
  from m z u f v show ?thesis by (intro conjI)
qed

theorem C3_mode_and_fan_codes_witness:
  "collect_args unpack
     (args_vars_of (climate_init\<lparr>hvac_mode := ''eco'', fan_mode := ''turbo''\<rparr>))
     Map.empty ''mode'' = Some 1 \<and>
   collect_args unpack
     (args_vars_of (climate_init\<lparr>hvac_mode := ''eco'', fan_mode := ''turbo''\<rparr>))
     Map.empty ''fan'' = Some 0 \<and>
   collect_args unpack (args_vars_of (climate_init\<lparr>hvac_mode := HVAC_MODE_DRY\<rparr>))
     Map.empty ''mode'' = Some 2 \<and>
   collect_args unpack (args_vars_of (climate_init\<lparr>hvac_mode := HVAC_MODE_FAN_ONLY\<rparr>))
     Map.empty ''mode'' = Some 0"
proof -
  let ?c = "climate_init\<lparr>hvac_mode := ''eco'', fan_mode := ''turbo''\<rparr>"
  have m: "hvac_mode ?c \<notin> {HVAC_MODE_OFF, HVAC_MODE_FAN_ONLY, HVAC_MODE_COOL, HVAC_MODE_DRY,
                    HVAC_MODE_HEAT_COOL, HVAC_MODE_HEAT}"
    by (simp add: mode_defs)
  have f: "fan_mode ?c \<notin> {FAN_LOW, FAN_MEDIUM, FAN_HIGH}" by (simp add: fan_defs)
  from C3_mode_and_fan_codes [of ?c] m f
  have 1: "collect_args unpack (args_vars_of ?c) Map.empty ''mode'' = Some 1 \<and>
           collect_args unpack (args_vars_of ?c) Map.empty ''fan'' = Some 0"
    by blast
  let ?d = "climate_init\<lparr>hvac_mode := HVAC_MODE_DRY\<rparr>"
  have d: "hvac_mode ?d = HVAC_MODE_DRY" by simp
  have "collect_args unpack (args_vars_of ?d) Map.empty ''mode'' =
     Some (if hvac_mode ?d = HVAC_MODE_OFF \<or> hvac_mode ?d = HVAC_MODE_FAN_ONLY then 0
           else if hvac_mode ?d = HVAC_MODE_DRY then 2
           else if hvac_mode ?d = HVAC_MODE_HEAT_COOL then 3
           else if hvac_mode ?d = HVAC_MODE_HEAT then 4
           else 1)"
    using C3_mode_and_fan_codes [of ?d] by (elim conjE)
  then have 2: "collect_args unpack (args_vars_of ?d) Map.empty ''mode'' = Some 2"
    by (simp add: mode_defs)
  let ?e = "climate_init\<lparr>hvac_mode := HVAC_MODE_FAN_ONLY\<rparr>"
  have "collect_args unpack (args_vars_of ?e) Map.empty ''mode'' = Some 0 \<longleftrightarrow>
      hvac_mode ?e = HVAC_MODE_OFF \<or> hvac_mode ?e = HVAC_MODE_FAN_ONLY"
    using C3_mode_and_fan_codes [of ?e] by (elim conjE)
  then have 3: "collect_args unpack (args_vars_of ?e) Map.empty ''mode'' = Some 0"
    by simp
  from 1 2 3 show ?thesis by blast
qed

text \<open>
  The claim as stated fails for the mode auto of Home Assistant, which is not a key of
  the lookup table: its field value is 1, not the 0 of fan-only.
\<close>

theorem C3_counterexample:
  "HVAC_MODE_AUTO = ''auto'' \<and>
   collect_args unpack (args_vars_of (fst (set_hvac_mode climate_init HVAC_MODE_AUTO)))
     Map.empty ''mode'' = Some 1 \<and>
   collect_args unpack (args_vars_of (fst (set_hvac_mode climate_init HVAC_MODE_FAN_ONLY)))
     Map.empty ''mode'' = Some 0"
  by (simp add: sent_mode dict_get_def set_hvac_mode_def Let_def mode_defs)

lemma available_iff_auth_returned_true:
  "BroadlinkTadiran_init t = Inr s \<Longrightarrow> available s \<longleftrightarrow> auth t = Returns True"
  by (auto simp: BroadlinkTadiran_init_def split: outcome.splits)

text \<open>
  Claim C4, on the code. The handler around \<^verbatim>\<open>auth()\<close> turns the library's
  \<^verbatim>\<open>DeviceOfflineError\<close> into \<^verbatim>\<open>InvalidAuth\<close>, where the handler around
  \<^verbatim>\<open>gendevice\<close> turns the same exception into \<^verbatim>\<open>CannotConnect\<close>: a device whose
  handle is created and that is offline when the authentication call is made
  makes construction raise \<^verbatim>\<open>InvalidAuth\<close>. A device that answers and rejects the
  handshake makes construction return a session, whose \<open>available\<close> is false, and it
  is \<^verbatim>\<open>tadiran_validate\<close> that raises, and raises \<^verbatim>\<open>CannotConnect\<close>. The two
  errors are exchanged with respect to the claim and to the docstrings of the two
  exception classes.
\<close>

theorem C4_offline_and_rejected_exchanged:
  "BroadlinkTadiran_init \<lparr>gendevice = Returns (), auth = Raises_DeviceOfflineError\<rparr> =
     Inl InvalidAuth \<and>
   tadiran_validate \<lparr>gendevice = Returns (), auth = Raises_DeviceOfflineError\<rparr> =
     Inl InvalidAuth \<and>
   BroadlinkTadiran_init \<lparr>gendevice = Returns (), auth = Returns False\<rparr> =
     Inr \<lparr>available = False\<rparr> \<and>
   tadiran_validate \<lparr>gendevice = Returns (), auth = Returns False\<rparr> =
     Inl CannotConnect"
  by (simp add: BroadlinkTadiran_init_def tadiran_validate_def)

end
